theory Spec2Isabelle
  imports Main "HOL-Library.Word" "HOL-Library.Multiset"
begin

section \<open>The two-phase-locking transaction manager of TinyDB\<close>

text \<open>
  The development embeds \<^verbatim>\<open>src/concurrency/two_phase_locking.cpp\<close>: the member
  functions \<^verbatim>\<open>Read\<close>, \<^verbatim>\<open>Insert\<close>, \<^verbatim>\<open>Delete\<close>, \<^verbatim>\<open>Update\<close>, \<^verbatim>\<open>Begin\<close>,
  \<^verbatim>\<open>Commit\<close>, \<^verbatim>\<open>Abort\<close> and \<^verbatim>\<open>ReleaseAllLocks\<close> of \<^verbatim>\<open>TwoPLManager\<close>.
  The manager mutates a transaction context through a pointer and calls three
  collaborators (lock manager, table heap, transaction map). The embedding passes
  one \<open>world\<close> value through every call: the live context objects by address, the
  transaction map, the table heap, and the sequence of calls made so far.
\<close>

subsection \<open>Data\<close>

type_synonym RID = "64 word"
type_synonym txn_id_t = "64 word"
type_synonym Tuple = string
type_synonym ctx_ptr = nat

datatype IsolationLevel = READ_UNCOMMITTED | READ_COMMITTED | REPEATABLE_READ | SERIALIZABLE

datatype TransactionState = GROWING | SHRINKING | COMMITTED | ABORTED

text \<open>
  Modelled from the spec: the enumeration \<^verbatim>\<open>ErrorCode\<close> is declared outside the
  source file, which names only \<^verbatim>\<open>ErrorCode::SKIP\<close> and the default (successful)
  \<^verbatim>\<open>Result()\<close>. The five kinds are those of the specification's error design;
  \<open>EC_OK\<close> and \<open>EC_ABORTED\<close> are its \<^verbatim>\<open>OK\<close> and \<^verbatim>\<open>ABORTED\<close>.
\<close>

datatype ErrorCode = EC_OK | SKIP | EC_ABORTED | STORAGE_ERROR | STATE_VIOLATION

text \<open>
  The ways a call ends without returning to its caller: a failed \<^verbatim>\<open>TINYDB_ASSERT\<close>,
  an error raised by a collaborator and propagated, and the use of a context object
  after \<^verbatim>\<open>delete\<close>. C++ gives the last no meaning at all; the model stops there, so
  that nothing is claimed about what the program does afterwards.
\<close>

datatype failure = AssertionFailed | Thrown ErrorCode | UseAfterFree

text \<open>
  A registered action is a \<^verbatim>\<open>std::function<void()>\<close>. The model gives each thunk an
  identity, recorded when it runs, and an effect on the table heap (the rollback and
  commit thunks of the specification act on storage).
\<close>

record action =
  act_id :: nat
  act_run :: "(RID \<rightharpoonup> Tuple) \<Rightarrow> (RID \<rightharpoonup> Tuple)"

text \<open>
  Modelled from the spec: the class \<^verbatim>\<open>TwoPLContext\<close> is declared in a header that
  is not part of the source file. The fields are those the source reads
  (\<^verbatim>\<open>isolation_level_\<close>, \<^verbatim>\<open>commit_action_\<close>, \<^verbatim>\<open>abort_action_\<close>, the two
  lock sets, the transaction id) and the state of the specification's data model.
  A lock set is a hashed set; the model keeps it as a list, whose order stands
  for the (unspecified) iteration order. The action queues are kept in the
  order the source's range-\<^verbatim>\<open>for\<close> visits them.
\<close>

record TwoPLContext =
  txn_id :: txn_id_t
  isolation_level :: IsolationLevel
  state :: TransactionState
  shared_lock_set :: "RID list"
  exclusive_lock_set :: "RID list"
  commit_action :: "action list"
  abort_action :: "action list"

text \<open>
  Insertion into a \<^verbatim>\<open>std::unordered_set<RID>\<close>: an element already present is not
  inserted again.
\<close>

definition emplace :: "RID \<Rightarrow> RID list \<Rightarrow> RID list" where
  "emplace rid lock_set = (if rid \<in> set lock_set then lock_set else lock_set @ [rid])"

text \<open>The calls the manager makes, in the order it makes them.\<close>

datatype event =
    EvLockShared ctx_ptr RID
  | EvUnlock ctx_ptr RID
  | EvGetTuple RID
  | EvSetCommitted ctx_ptr
  | EvSetAborted ctx_ptr
  | EvAction nat
  | EvAddTransactionContext txn_id_t ctx_ptr
  | EvRemoveTransactionContext txn_id_t
  | EvNew ctx_ptr
  | EvDelete ctx_ptr

text \<open>
  The state all calls share. \<open>heap\<close> holds the context objects that are alive;
  \<open>txn_map\<close> is the transaction registry; \<open>next_txn_id\<close> is the atomic counter;
  \<open>next_ptr\<close> is the next address \<^verbatim>\<open>new\<close> hands out; \<open>tuples\<close> is the content of the
  table heap; \<open>victim\<close> tells for which lock requests the lock manager picks the
  requester as deadlock victim; \<open>calls\<close> is the call sequence so far, oldest first.

  \<open>iteration_key\<close> stands for the hash table behind a \<^verbatim>\<open>std::unordered_set<RID>\<close>:
  for a set built by a sequence of insertions, it gives every element the key of
  its place in the iteration of the set. The order in which a range-\<^verbatim>\<open>for\<close>
  visits such a set is left to the hash table; the model leaves it to this
  parameter, so that every order of the elements is the iteration order for some
  value of it.
\<close>

record world =
  heap :: "ctx_ptr \<rightharpoonup> TwoPLContext"
  txn_map :: "txn_id_t \<rightharpoonup> ctx_ptr"
  next_txn_id :: txn_id_t
  next_ptr :: ctx_ptr
  tuples :: "RID \<rightharpoonup> Tuple"
  victim :: "ctx_ptr \<Rightarrow> RID \<Rightarrow> bool"
  iteration_key :: "RID list \<Rightarrow> RID \<Rightarrow> nat"
  calls :: "event list"

definition new_calls :: "world \<Rightarrow> world \<Rightarrow> event list" where
  "new_calls w w' = drop (length (calls w)) (calls w')"

subsection \<open>The transaction context\<close>

text \<open>
  Modelled from the spec: the helpers of the context class (\<^verbatim>\<open>IsAborted\<close>,
  \<^verbatim>\<open>IsSharedLocked\<close>, \<^verbatim>\<open>IsExclusiveLocked\<close>, \<^verbatim>\<open>SetCommitted\<close>, \<^verbatim>\<open>SetAborted\<close>,
  \<^verbatim>\<open>AppendAbortAction\<close>, \<^verbatim>\<open>AppendCommitAction\<close>) are declared outside the source
  file. The specification calls the class a pure data holder with typed helpers;
  the action queues are ordered sequences to which thunks are appended.
\<close>

definition IsAborted :: "TwoPLContext \<Rightarrow> bool" where
  "IsAborted c = (state c = ABORTED)"

definition IsSharedLocked :: "TwoPLContext \<Rightarrow> RID \<Rightarrow> bool" where
  "IsSharedLocked c rid = (rid \<in> set (shared_lock_set c))"

definition IsExclusiveLocked :: "TwoPLContext \<Rightarrow> RID \<Rightarrow> bool" where
  "IsExclusiveLocked c rid = (rid \<in> set (exclusive_lock_set c))"

definition AppendAbortAction :: "action \<Rightarrow> TwoPLContext \<Rightarrow> TwoPLContext" where
  "AppendAbortAction a c = c\<lparr>abort_action := abort_action c @ [a]\<rparr>"

definition AppendCommitAction :: "action \<Rightarrow> TwoPLContext \<Rightarrow> TwoPLContext" where
  "AppendCommitAction a c = c\<lparr>commit_action := commit_action c @ [a]\<rparr>"

definition SetCommitted :: "world \<Rightarrow> ctx_ptr \<Rightarrow> world" where
  "SetCommitted w p =
     (case heap w p of
        None \<Rightarrow> w
      | Some c \<Rightarrow> w\<lparr>heap := (heap w)(p \<mapsto> c\<lparr>state := COMMITTED\<rparr>),
                     calls := calls w @ [EvSetCommitted p]\<rparr>)"

definition SetAborted :: "world \<Rightarrow> ctx_ptr \<Rightarrow> world" where
  "SetAborted w p =
     (case heap w p of
        None \<Rightarrow> w
      | Some c \<Rightarrow> w\<lparr>heap := (heap w)(p \<mapsto> c\<lparr>state := ABORTED\<rparr>),
                     calls := calls w @ [EvSetAborted p]\<rparr>)"

text \<open>Calling a thunk: its effect on the table heap, and the record of the call.\<close>

definition run_action :: "action \<Rightarrow> world \<Rightarrow> world" where
  "run_action a w = w\<lparr>tuples := act_run a (tuples w), calls := calls w @ [EvAction (act_id a)]\<rparr>"

subsection \<open>The collaborators\<close>

text \<open>
  Modelled from the spec: the lock manager is not part of the source file.
  \<^verbatim>\<open>LockShared(ctx, rid)\<close> blocks; on success it adds \<open>rid\<close> to the shared set of
  the context; on deadlock victimization it sets the state to \<open>ABORTED\<close> and
  fails with \<^verbatim>\<open>ABORTED\<close>, which the caller propagates. Waiting is not modelled: a
  request ends in one of the two ways, as \<open>victim\<close> decides.
\<close>

definition LockShared :: "world \<Rightarrow> ctx_ptr \<Rightarrow> RID \<Rightarrow> (failure + unit) \<times> world" where
  "LockShared w p rid =
     (case heap w p of
        None \<Rightarrow> (Inl UseAfterFree, w)
      | Some c \<Rightarrow>
          if victim w p rid
          then (Inl (Thrown EC_ABORTED),
                w\<lparr>heap := (heap w)(p \<mapsto> c\<lparr>state := ABORTED\<rparr>),
                  calls := calls w @ [EvLockShared p rid]\<rparr>)
          else (Inr (),
                w\<lparr>heap := (heap w)(p \<mapsto> c\<lparr>shared_lock_set := emplace rid (shared_lock_set c)\<rparr>),
                  calls := calls w @ [EvLockShared p rid]\<rparr>))"

text \<open>
  Modelled from the spec: \<^verbatim>\<open>Unlock(ctx, rid)\<close> releases whichever mode is held and
  removes the RID from the corresponding set; it never blocks and never fails for
  a held lock; it tolerates a RID held in either mode. The model erases the RID
  from both sets of the context.
\<close>

definition Unlock :: "world \<Rightarrow> ctx_ptr \<Rightarrow> RID \<Rightarrow> world" where
  "Unlock w p rid =
     (case heap w p of
        None \<Rightarrow> w\<lparr>calls := calls w @ [EvUnlock p rid]\<rparr>
      | Some c \<Rightarrow>
          w\<lparr>heap := (heap w)(p \<mapsto> c\<lparr>shared_lock_set := removeAll rid (shared_lock_set c),
                                      exclusive_lock_set := removeAll rid (exclusive_lock_set c)\<rparr>),
            calls := calls w @ [EvUnlock p rid]\<rparr>)"

text \<open>
  Modelled from the spec: \<^verbatim>\<open>GetTuple(rid, out)\<close> of the table heap returns a
  truth value, false when the tuple is missing or deleted. The out parameter is
  written only on success.
\<close>

definition GetTuple :: "world \<Rightarrow> RID \<Rightarrow> bool \<times> Tuple option \<times> world" where
  "GetTuple w rid =
     (case tuples w rid of
        None \<Rightarrow> (False, None, w\<lparr>calls := calls w @ [EvGetTuple rid]\<rparr>)
      | Some t \<Rightarrow> (True, Some t, w\<lparr>calls := calls w @ [EvGetTuple rid]\<rparr>))"

text \<open>
  Modelled from the spec: the transaction registry maps a transaction id to its
  context; the source calls its \<^verbatim>\<open>AddTransactionContext\<close> and
  \<^verbatim>\<open>RemoveTransactionContext\<close>.
\<close>

definition AddTransactionContext :: "world \<Rightarrow> txn_id_t \<Rightarrow> ctx_ptr \<Rightarrow> world" where
  "AddTransactionContext w tid p =
     w\<lparr>txn_map := (txn_map w)(tid \<mapsto> p), calls := calls w @ [EvAddTransactionContext tid p]\<rparr>"

definition RemoveTransactionContext :: "world \<Rightarrow> txn_id_t \<Rightarrow> world" where
  "RemoveTransactionContext w tid =
     w\<lparr>txn_map := (txn_map w)(tid := None), calls := calls w @ [EvRemoveTransactionContext tid]\<rparr>"

text \<open>\<^verbatim>\<open>new TwoPLContext(txn_id, isolation_level)\<close> and \<^verbatim>\<open>delete txn_context\<close>.\<close>

definition new_context :: "world \<Rightarrow> txn_id_t \<Rightarrow> IsolationLevel \<Rightarrow> ctx_ptr \<times> world" where
  "new_context w tid lvl =
     (next_ptr w,
      w\<lparr>heap := (heap w)(next_ptr w \<mapsto>
            \<lparr>txn_id = tid, isolation_level = lvl, state = GROWING,
             shared_lock_set = [], exclusive_lock_set = [],
             commit_action = [], abort_action = []\<rparr>),
        next_ptr := Suc (next_ptr w),
        calls := calls w @ [EvNew (next_ptr w)]\<rparr>)"

definition delete_context :: "world \<Rightarrow> ctx_ptr \<Rightarrow> world" where
  "delete_context w p = w\<lparr>heap := (heap w)(p := None), calls := calls w @ [EvDelete p]\<rparr>"

subsection \<open>The manager\<close>

text \<open>
  \<^verbatim>\<open>TINYDB_ASSERT(txn_context->IsAborted() == false, ...)\<close> opens every data
  operation. The macro is defined outside the source file; the model takes it as
  a checked assertion, whose failure ends the call at once with \<open>AssertionFailed\<close>.
  How the macro reports the failure is left open: \<open>AssertionFailed\<close> stands for
  whatever it does (the specification's name for an operation refused at entry
  is \<^verbatim>\<open>STATE_VIOLATION\<close>).
\<close>

definition Read :: "world \<Rightarrow> ctx_ptr \<Rightarrow> RID \<Rightarrow> (failure + ErrorCode \<times> Tuple option) \<times> world" where
  "Read w p rid =
     (case heap w p of
        None \<Rightarrow> (Inl UseAfterFree, w)
      | Some c \<Rightarrow>
          if IsAborted c then (Inl AssertionFailed, w)
          else
            (case (if isolation_level c \<noteq> READ_UNCOMMITTED \<and>
                      \<not> IsSharedLocked c rid \<and>
                      \<not> IsExclusiveLocked c rid
                   then LockShared w p rid
                   else (Inr (), w)) of
               (Inl f, w1) \<Rightarrow> (Inl f, w1)
             | (Inr _, w1) \<Rightarrow>
                 (case GetTuple w1 rid of
                    (ok, out, w2) \<Rightarrow>
                      let res = (if \<not> ok then SKIP else EC_OK) in
                      (case heap w2 p of
                         None \<Rightarrow> (Inl UseAfterFree, w2)
                       | Some c2 \<Rightarrow>
                           if isolation_level c2 = READ_COMMITTED \<and> IsSharedLocked c2 rid
                           then (Inr (res, out), Unlock w2 p rid)
                           else (Inr (res, out), w2)))))"

text \<open>
  \<^verbatim>\<open>Insert\<close>, \<^verbatim>\<open>Delete\<close> and \<^verbatim>\<open>Update\<close> consist of the assertion alone
  (\<^verbatim>\<open>Insert\<close> also casts the pointer). \<^verbatim>\<open>Insert\<close> has the out parameter
  \<^verbatim>\<open>RID *rid\<close>, which it never writes: the result \<open>None\<close>.
\<close>

definition Insert :: "world \<Rightarrow> ctx_ptr \<Rightarrow> Tuple \<Rightarrow> (failure + RID option) \<times> world" where
  "Insert w p tuple =
     (case heap w p of
        None \<Rightarrow> (Inl UseAfterFree, w)
      | Some c \<Rightarrow> if IsAborted c then (Inl AssertionFailed, w) else (Inr None, w))"

definition Delete :: "world \<Rightarrow> ctx_ptr \<Rightarrow> RID \<Rightarrow> (failure + unit) \<times> world" where
  "Delete w p rid =
     (case heap w p of
        None \<Rightarrow> (Inl UseAfterFree, w)
      | Some c \<Rightarrow> if IsAborted c then (Inl AssertionFailed, w) else (Inr (), w))"

definition Update :: "world \<Rightarrow> ctx_ptr \<Rightarrow> Tuple \<Rightarrow> RID \<Rightarrow> (failure + unit) \<times> world" where
  "Update w p tuple rid =
     (case heap w p of
        None \<Rightarrow> (Inl UseAfterFree, w)
      | Some c \<Rightarrow> if IsAborted c then (Inl AssertionFailed, w) else (Inr (), w))"

definition Begin :: "world \<Rightarrow> IsolationLevel \<Rightarrow> ctx_ptr \<times> world" where
  "Begin w lvl =
     (let tid = next_txn_id w;
          w1 = w\<lparr>next_txn_id := next_txn_id w + 1\<rparr>;
          (context, w2) = new_context w1 tid lvl;
          w3 = AddTransactionContext w2 tid context
      in (context, w3))"

text \<open>
  \<^verbatim>\<open>ReleaseAllLocks\<close> copies the exclusive and then the shared lock set into a
  local \<^verbatim>\<open>std::unordered_set<RID> lock_set\<close> and unlocks every element of the
  copy, in the order in which the range-\<^verbatim>\<open>for\<close> visits the copy. \<open>iterate\<close> is
  that order for a set built by the insertion sequence \<open>ins\<close>: the elements of
  \<open>ins\<close>, arranged by the keys the hash table gives them. \<open>lock_set_of\<close> is the
  sequence of RIDs the last loop of \<^verbatim>\<open>ReleaseAllLocks\<close> visits.
\<close>

definition iterate :: "(RID list \<Rightarrow> RID \<Rightarrow> nat) \<Rightarrow> RID list \<Rightarrow> RID list" where
  "iterate key ins = sort_key (key ins) ins"

definition lock_set_of :: "(RID list \<Rightarrow> RID \<Rightarrow> nat) \<Rightarrow> TwoPLContext \<Rightarrow> RID list" where
  "lock_set_of key c =
     iterate key (fold emplace (shared_lock_set c) (fold emplace (exclusive_lock_set c) []))"

definition ReleaseAllLocks :: "world \<Rightarrow> ctx_ptr \<Rightarrow> (failure + unit) \<times> world" where
  "ReleaseAllLocks w p =
     (case heap w p of
        None \<Rightarrow> (Inl UseAfterFree, w)
      | Some c \<Rightarrow> (Inr (), fold (\<lambda>rid w'. Unlock w' p rid) (lock_set_of (iteration_key w) c) w))"

definition Commit :: "world \<Rightarrow> ctx_ptr \<Rightarrow> (failure + unit) \<times> world" where
  "Commit w p =
     (case heap w p of
        None \<Rightarrow> (Inl UseAfterFree, w)
      | Some c \<Rightarrow>
          let w1 = SetCommitted w p;
              w2 = fold run_action (commit_action c) w1
          in (case ReleaseAllLocks w2 p of
                (Inl f, w3) \<Rightarrow> (Inl f, w3)
              | (Inr _, w3) \<Rightarrow>
                  let w4 = RemoveTransactionContext w3 (txn_id c);
                      w5 = delete_context w4 p
                  in (Inr (), w5)))"

definition Abort :: "world \<Rightarrow> ctx_ptr \<Rightarrow> (failure + unit) \<times> world" where
  "Abort w p =
     (case heap w p of
        None \<Rightarrow> (Inl UseAfterFree, w)
      | Some c \<Rightarrow>
          let w1 = SetAborted w p;
              w2 = fold run_action (abort_action c) w1
          in (case ReleaseAllLocks w2 p of
                (Inl f, w3) \<Rightarrow> (Inl f, w3)
              | (Inr _, w3) \<Rightarrow>
                  let w4 = RemoveTransactionContext w3 (txn_id c);
                      w5 = delete_context w4 p
                  in (Inr (), w5)))"

subsection \<open>Reading the call sequence\<close>

text \<open>
  The lock requests, the unlock calls and the thunks run, each in the order of the
  call sequence.
\<close>

definition lock_requests :: "event list \<Rightarrow> (ctx_ptr \<times> RID) list" where
  "lock_requests es = concat (map (\<lambda>e. case e of EvLockShared q r \<Rightarrow> [(q, r)] | _ \<Rightarrow> []) es)"

definition unlock_calls :: "event list \<Rightarrow> (ctx_ptr \<times> RID) list" where
  "unlock_calls es = concat (map (\<lambda>e. case e of EvUnlock q r \<Rightarrow> [(q, r)] | _ \<Rightarrow> []) es)"

definition action_calls :: "event list \<Rightarrow> nat list" where
  "action_calls es = concat (map (\<lambda>e. case e of EvAction n \<Rightarrow> [n] | _ \<Rightarrow> []) es)"

definition storage_calls :: "event list \<Rightarrow> RID list" where
  "storage_calls es = concat (map (\<lambda>e. case e of EvGetTuple r \<Rightarrow> [r] | _ \<Rightarrow> []) es)"

subsection \<open>Sample transactions\<close>

text \<open>
  A context of transaction 7 at address 0, alone in a world whose table heap holds
  the rows 1 and 2, whose lock manager grants every request, and whose hashed sets
  are visited from the element inserted last to the element inserted first.
\<close>

definition sample_context ::
  "IsolationLevel \<Rightarrow> TransactionState \<Rightarrow> RID list \<Rightarrow> RID list \<Rightarrow> TwoPLContext" where
  "sample_context lvl st S X =
     \<lparr>txn_id = 7, isolation_level = lvl, state = st,
      shared_lock_set = S, exclusive_lock_set = X,
      commit_action = [], abort_action = []\<rparr>"

definition sample_world :: "TwoPLContext \<Rightarrow> world" where
  "sample_world c =
     \<lparr>heap = [0 \<mapsto> c], txn_map = [txn_id c \<mapsto> 0], next_txn_id = txn_id c + 1, next_ptr = 1,
      tuples = [1 \<mapsto> ''alpha'', 2 \<mapsto> ''beta''], victim = (\<lambda>_ _. False),
      iteration_key = (\<lambda>ins rid. length (takeWhile (\<lambda>x. x \<noteq> rid) (rev ins))),
      calls = []\<rparr>"

text \<open>
  The rollback thunks of a transaction that inserted row 3 and then deleted it:
  the undo of the insert removes the row (\<^verbatim>\<open>MarkDelete\<close>), the undo of the delete
  brings it back (\<^verbatim>\<open>RollbackDelete\<close>). Before the transaction, row 3 did not exist.
\<close>

definition undo_insert :: action where
  "undo_insert = \<lparr>act_id = 1, act_run = (\<lambda>t. t(3 := None))\<rparr>"

definition undo_delete :: action where
  "undo_delete = \<lparr>act_id = 2, act_run = (\<lambda>t. t(3 \<mapsto> ''gamma''))\<rparr>"

section \<open>Properties\<close>

subsection \<open>Auxiliary facts\<close>

lemma set_emplace: "set (emplace rid ls) = insert rid (set ls)"
  by (auto simp: emplace_def)

lemma distinct_emplace: "distinct ls \<Longrightarrow> distinct (emplace rid ls)"
  by (simp add: emplace_def)

lemma set_fold_emplace: "set (fold emplace rs ls) = set rs \<union> set ls"
  by (induction rs arbitrary: ls) (auto simp: set_emplace)

lemma distinct_fold_emplace: "distinct ls \<Longrightarrow> distinct (fold emplace rs ls)"
  by (induction rs arbitrary: ls) (auto simp: distinct_emplace)

lemma set_lock_set_of:
  "set (lock_set_of key c) = set (shared_lock_set c) \<union> set (exclusive_lock_set c)"
  by (auto simp: lock_set_of_def iterate_def set_fold_emplace)

lemma distinct_lock_set_of: "distinct (lock_set_of key c)"
  by (simp add: lock_set_of_def iterate_def distinct_fold_emplace)

text \<open>
  Every arrangement of the inserted elements is the iteration order of the hashed
  set for some value of the key: with the position in \<open>us\<close> as key, \<open>iterate\<close>
  visits the elements in the order \<open>us\<close>.
\<close>

lemma position_in_distinct:
  assumes "distinct us" and "i < length us"
  shows "length (takeWhile (\<lambda>x. x \<noteq> us ! i) us) = i"
proof -
  have "takeWhile (\<lambda>x. x \<noteq> us ! i) us = take i us"
  proof (rule takeWhile_eq_take_P_nth)
    fix j assume "j < i" "j < length us"
    with assms show "us ! j \<noteq> us ! i"
      by (simp add: nth_eq_iff_index_eq)
  next
    show "\<not> us ! i \<noteq> us ! i" by simp
  qed
  with assms(2) show ?thesis by simp
qed

lemma positions_sorted:
  assumes "distinct us"
  shows "map (\<lambda>r. length (takeWhile (\<lambda>x. x \<noteq> r) us)) us = [0..<length us]"
  by (rule nth_equalityI) (simp_all add: position_in_distinct [OF assms])

lemma position_nth:
  assumes "k \<in> set us"
  shows "length (takeWhile (\<lambda>y. y \<noteq> k) us) < length us \<and>
         us ! length (takeWhile (\<lambda>y. y \<noteq> k) us) = k"
proof -
  let ?n = "length (takeWhile (\<lambda>y. y \<noteq> k) us)"
  have ne: "takeWhile (\<lambda>y. y \<noteq> k) us \<noteq> us"
    using assms by (auto simp: takeWhile_eq_all_conv)
  have "take ?n us = takeWhile (\<lambda>y. y \<noteq> k) us"
    by (rule takeWhile_eq_take [symmetric])
  with ne have "take ?n us \<noteq> us"
    by simp
  then have "\<not> length us \<le> ?n"
    using take_all_iff [of ?n us] by blast
  then have lt: "?n < length us"
    by linarith
  from nth_length_takeWhile [OF lt] have "us ! ?n = k"
    by simp
  with lt show ?thesis by blast
qed

lemma position_inj:
  assumes "k \<in> set us" and "x \<in> set us"
    and "length (takeWhile (\<lambda>y. y \<noteq> k) us) = length (takeWhile (\<lambda>y. y \<noteq> x) us)"
  shows "k = x"
proof -
  from position_nth [OF assms(1)] have a: "us ! length (takeWhile (\<lambda>y. y \<noteq> k) us) = k"
    by blast
  from position_nth [OF assms(2)] have b: "us ! length (takeWhile (\<lambda>y. y \<noteq> x) us) = x"
    by blast
  have "k = us ! length (takeWhile (\<lambda>y. y \<noteq> k) us)"
    by (rule a [symmetric])
  also have "\<dots> = us ! length (takeWhile (\<lambda>y. y \<noteq> x) us)"
    by (simp only: assms(3))
  also have "\<dots> = x"
    by (rule b)
  finally show ?thesis .
qed

lemma filter_single:
  assumes "distinct xs" and "k \<in> set xs"
  shows "filter (\<lambda>x. k = x) xs = [k]"
  using assms by (induction xs) (auto simp: filter_empty_conv)

lemma iterate_any_order:
  assumes "distinct ins" and "distinct us" and "set us = set ins"
  shows "\<exists>key. iterate key ins = us"
proof -
  let ?f = "\<lambda>r. length (takeWhile (\<lambda>x. x \<noteq> r) us)"
  have m: "mset us = mset ins"
    using assms by (simp add: set_eq_iff_mset_eq_distinct)
  have s: "sorted (map ?f us)"
    by (simp add: positions_sorted [OF assms(2)])
  have f: "filter (\<lambda>x. ?f k = ?f x) us = filter (\<lambda>x. ?f k = ?f x) ins" if "k \<in> set us" for k
  proof -
    have "filter (\<lambda>x. ?f k = ?f x) us = filter (\<lambda>x. k = x) us"
      using that by (intro filter_cong refl) (auto dest: position_inj)
    moreover have "filter (\<lambda>x. ?f k = ?f x) ins = filter (\<lambda>x. k = x) ins"
      using that assms(3) by (intro filter_cong refl) (auto dest: position_inj [of _ us])
    ultimately show ?thesis
      using that assms by (simp add: filter_single)
  qed
  have "sort_key ?f ins = us"
    by (rule properties_for_sort_key [OF m f s])
  then have "iterate (\<lambda>_. ?f) ins = us"
    by (simp add: iterate_def)
  then show ?thesis by blast
qed

lemma lock_set_of_any_order:
  assumes "distinct us"
    and "set us = set (shared_lock_set c) \<union> set (exclusive_lock_set c)"
  shows "\<exists>key. lock_set_of key c = us"
  unfolding lock_set_of_def
  by (rule iterate_any_order) (simp_all add: assms distinct_fold_emplace set_fold_emplace)

lemma fold_run_action:
  "fold run_action as w =
     w\<lparr>tuples := fold act_run as (tuples w), calls := calls w @ map (\<lambda>a. EvAction (act_id a)) as\<rparr>"
  by (induction as arbitrary: w) (simp_all add: run_action_def)

lemma fold_Unlock:
  "heap w p = Some c \<Longrightarrow>
   fold (\<lambda>rid w'. Unlock w' p rid) rs w =
     w\<lparr>heap := (heap w)(p \<mapsto> c\<lparr>shared_lock_set := filter (\<lambda>r. r \<notin> set rs) (shared_lock_set c),
                                exclusive_lock_set := filter (\<lambda>r. r \<notin> set rs) (exclusive_lock_set c)\<rparr>),
       calls := calls w @ map (EvUnlock p) rs\<rparr>"
proof (induction rs arbitrary: w c)
  case Nil
  then have "(heap w)(p \<mapsto> c) = heap w"
    by (simp add: fun_upd_idem)
  moreover have "c\<lparr>shared_lock_set := shared_lock_set c, exclusive_lock_set := exclusive_lock_set c\<rparr> = c"
    by simp
  ultimately show ?case by simp
next
  case (Cons r rs)
  let ?c1 = "c\<lparr>shared_lock_set := removeAll r (shared_lock_set c),
               exclusive_lock_set := removeAll r (exclusive_lock_set c)\<rparr>"
  have u: "Unlock w p r = w\<lparr>heap := (heap w)(p \<mapsto> ?c1), calls := calls w @ [EvUnlock p r]\<rparr>"
    using Cons.prems by (simp add: Unlock_def)
  have h: "heap (Unlock w p r) p = Some ?c1"
    by (simp add: u)
  have f: "filter (\<lambda>x. x \<notin> set rs) (removeAll r xs) = filter (\<lambda>x. x \<notin> set (r # rs)) xs" for xs :: "RID list"
    by (induction xs) auto
  have "fold (\<lambda>rid w'. Unlock w' p rid) (r # rs) w = fold (\<lambda>rid w'. Unlock w' p rid) rs (Unlock w p r)"
    by simp
  also note Cons.IH [OF h]
  finally show ?case
    unfolding u by (simp add: f fun_eq_iff)
qed

lemma ReleaseAllLocks_eq:
  "heap w p = Some c \<Longrightarrow>
   ReleaseAllLocks w p =
     (Inr (), w\<lparr>heap := (heap w)(p \<mapsto> c\<lparr>shared_lock_set := [], exclusive_lock_set := []\<rparr>),
               calls := calls w @ map (EvUnlock p) (lock_set_of (iteration_key w) c)\<rparr>)"
  by (simp add: ReleaseAllLocks_def fold_Unlock set_lock_set_of)

lemma lock_set_of_state [simp]: "lock_set_of key (c\<lparr>state := s\<rparr>) = lock_set_of key c"
  by (simp add: lock_set_of_def)

lemma Commit_eq:
  assumes "heap w p = Some c"
  shows "Commit w p =
     (Inr (), w\<lparr>heap := (heap w)(p := None),
                txn_map := (txn_map w)(txn_id c := None),
                tuples := fold act_run (commit_action c) (tuples w),
                calls := calls w @ [EvSetCommitted p] @ map (\<lambda>a. EvAction (act_id a)) (commit_action c) @
                         map (EvUnlock p) (lock_set_of (iteration_key w) c) @
                         [EvRemoveTransactionContext (txn_id c), EvDelete p]\<rparr>)"
proof -
  let ?w2 = "fold run_action (commit_action c) (SetCommitted w p)"
  have h2: "heap ?w2 p = Some (c\<lparr>state := COMMITTED\<rparr>)"
    using assms by (simp add: fold_run_action SetCommitted_def)
  show ?thesis
    using assms
    by (simp add: Commit_def Let_def ReleaseAllLocks_eq [OF h2] RemoveTransactionContext_def
          delete_context_def)
       (simp add: fold_run_action SetCommitted_def fun_eq_iff)
qed

lemma Abort_eq:
  assumes "heap w p = Some c"
  shows "Abort w p =
     (Inr (), w\<lparr>heap := (heap w)(p := None),
                txn_map := (txn_map w)(txn_id c := None),
                tuples := fold act_run (abort_action c) (tuples w),
                calls := calls w @ [EvSetAborted p] @ map (\<lambda>a. EvAction (act_id a)) (abort_action c) @
                         map (EvUnlock p) (lock_set_of (iteration_key w) c) @
                         [EvRemoveTransactionContext (txn_id c), EvDelete p]\<rparr>)"
proof -
  let ?w2 = "fold run_action (abort_action c) (SetAborted w p)"
  have h2: "heap ?w2 p = Some (c\<lparr>state := ABORTED\<rparr>)"
    using assms by (simp add: fold_run_action SetAborted_def)
  show ?thesis
    using assms
    by (simp add: Abort_def Let_def ReleaseAllLocks_eq [OF h2] RemoveTransactionContext_def
          delete_context_def)
       (simp add: fold_run_action SetAborted_def fun_eq_iff)
qed

lemma count_list_distinct:
  "distinct xs \<Longrightarrow> count_list xs x = (if x \<in> set xs then 1 else 0)"
  by (induction xs) auto

lemma new_calls_append [simp]: "calls w' = calls w @ es \<Longrightarrow> new_calls w w' = es"
  by (simp add: new_calls_def)

lemma unlock_calls_simps [simp]:
  "unlock_calls [] = []"
  "unlock_calls (es @ fs) = unlock_calls es @ unlock_calls fs"
  "unlock_calls (EvUnlock q r # es) = (q, r) # unlock_calls es"
  "unlock_calls (EvLockShared q r # es) = unlock_calls es"
  "unlock_calls (EvGetTuple r # es) = unlock_calls es"
  "unlock_calls (EvSetCommitted q # es) = unlock_calls es"
  "unlock_calls (EvSetAborted q # es) = unlock_calls es"
  "unlock_calls (EvAction n # es) = unlock_calls es"
  "unlock_calls (EvAddTransactionContext t q # es) = unlock_calls es"
  "unlock_calls (EvRemoveTransactionContext t # es) = unlock_calls es"
  "unlock_calls (EvNew q # es) = unlock_calls es"
  "unlock_calls (EvDelete q # es) = unlock_calls es"
  by (simp_all add: unlock_calls_def)

lemma unlock_calls_map_EvUnlock [simp]: "unlock_calls (map (EvUnlock p) rs) = map (Pair p) rs"
  by (induction rs) simp_all

lemma unlock_calls_map_EvAction [simp]: "unlock_calls (map (\<lambda>a. EvAction (f a)) as) = []"
  by (induction as) simp_all

lemma action_calls_simps [simp]:
  "action_calls [] = []"
  "action_calls (es @ fs) = action_calls es @ action_calls fs"
  "action_calls (EvAction n # es) = n # action_calls es"
  "action_calls (EvUnlock q r # es) = action_calls es"
  "action_calls (EvLockShared q r # es) = action_calls es"
  "action_calls (EvGetTuple r # es) = action_calls es"
  "action_calls (EvSetCommitted q # es) = action_calls es"
  "action_calls (EvSetAborted q # es) = action_calls es"
  "action_calls (EvAddTransactionContext t q # es) = action_calls es"
  "action_calls (EvRemoveTransactionContext t # es) = action_calls es"
  "action_calls (EvNew q # es) = action_calls es"
  "action_calls (EvDelete q # es) = action_calls es"
  by (simp_all add: action_calls_def)

lemma action_calls_map_EvUnlock [simp]: "action_calls (map (EvUnlock p) rs) = []"
  by (induction rs) simp_all

lemma action_calls_map_EvAction [simp]: "action_calls (map (\<lambda>a. EvAction (f a)) as) = map f as"
  by (induction as) simp_all

lemma abort_action_fold_Append:
  "abort_action (fold AppendAbortAction as c) = abort_action c @ as"
  by (induction as arbitrary: c) (simp_all add: AppendAbortAction_def)

lemma lock_requests_simps [simp]:
  "lock_requests [] = []"
  "lock_requests (es @ fs) = lock_requests es @ lock_requests fs"
  "lock_requests (EvLockShared q r # es) = (q, r) # lock_requests es"
  "lock_requests (EvUnlock q r # es) = lock_requests es"
  "lock_requests (EvGetTuple r # es) = lock_requests es"
  "lock_requests (EvSetCommitted q # es) = lock_requests es"
  "lock_requests (EvSetAborted q # es) = lock_requests es"
  "lock_requests (EvAction n # es) = lock_requests es"
  "lock_requests (EvAddTransactionContext t q # es) = lock_requests es"
  "lock_requests (EvRemoveTransactionContext t # es) = lock_requests es"
  "lock_requests (EvNew q # es) = lock_requests es"
  "lock_requests (EvDelete q # es) = lock_requests es"
  by (simp_all add: lock_requests_def)

lemma storage_calls_simps [simp]:
  "storage_calls [] = []"
  "storage_calls (es @ fs) = storage_calls es @ storage_calls fs"
  "storage_calls (EvGetTuple r # es) = r # storage_calls es"
  "storage_calls (EvLockShared q r # es) = storage_calls es"
  "storage_calls (EvUnlock q r # es) = storage_calls es"
  "storage_calls (EvSetCommitted q # es) = storage_calls es"
  "storage_calls (EvSetAborted q # es) = storage_calls es"
  "storage_calls (EvAction n # es) = storage_calls es"
  "storage_calls (EvAddTransactionContext t q # es) = storage_calls es"
  "storage_calls (EvRemoveTransactionContext t # es) = storage_calls es"
  "storage_calls (EvNew q # es) = storage_calls es"
  "storage_calls (EvDelete q # es) = storage_calls es"
  by (simp_all add: storage_calls_def)

lemma new_calls_same [simp]: "new_calls w w = []"
  by (simp add: new_calls_def)

text \<open>The result of \<^verbatim>\<open>Read\<close>, its calls and the context it leaves, by cases.\<close>

lemma Read_result:
  assumes "heap w p = Some c"
  shows "fst (Read w p rid) =
     (if IsAborted c then Inl AssertionFailed
      else if isolation_level c \<noteq> READ_UNCOMMITTED \<and> \<not> IsSharedLocked c rid \<and> \<not> IsExclusiveLocked c rid \<and>
              victim w p rid then Inl (Thrown EC_ABORTED)
      else (case tuples w rid of None \<Rightarrow> Inr (SKIP, None) | Some t \<Rightarrow> Inr (EC_OK, Some t)))"
  using assms
  by (simp add: Read_def LockShared_def GetTuple_def Unlock_def IsSharedLocked_def set_emplace
        split: option.splits)

lemma Read_calls:
  assumes "heap w p = Some c"
  shows "new_calls w (snd (Read w p rid)) =
     (if IsAborted c then []
      else (if isolation_level c \<noteq> READ_UNCOMMITTED \<and> \<not> IsSharedLocked c rid \<and> \<not> IsExclusiveLocked c rid
            then (if victim w p rid then [EvLockShared p rid]
                  else [EvLockShared p rid, EvGetTuple rid] @
                       (if isolation_level c = READ_COMMITTED then [EvUnlock p rid] else []))
            else [EvGetTuple rid] @
                 (if isolation_level c = READ_COMMITTED \<and> IsSharedLocked c rid then [EvUnlock p rid] else [])))"
  using assms
  by (simp add: Read_def LockShared_def GetTuple_def Unlock_def IsSharedLocked_def set_emplace
        split: option.splits)

lemma Read_heap:
  assumes "heap w p = Some c"
  shows "heap (snd (Read w p rid)) p =
     (if IsAborted c then Some c
      else if isolation_level c \<noteq> READ_UNCOMMITTED \<and> \<not> IsSharedLocked c rid \<and> \<not> IsExclusiveLocked c rid
      then (if victim w p rid then Some (c\<lparr>state := ABORTED\<rparr>)
            else if isolation_level c = READ_COMMITTED
            then Some (c\<lparr>shared_lock_set := removeAll rid (emplace rid (shared_lock_set c)),
                         exclusive_lock_set := removeAll rid (exclusive_lock_set c)\<rparr>)
            else Some (c\<lparr>shared_lock_set := emplace rid (shared_lock_set c)\<rparr>))
      else if isolation_level c = READ_COMMITTED \<and> IsSharedLocked c rid
      then Some (c\<lparr>shared_lock_set := removeAll rid (shared_lock_set c),
                   exclusive_lock_set := removeAll rid (exclusive_lock_set c)\<rparr>)
      else Some c)"
  using assms
  by (simp add: Read_def LockShared_def GetTuple_def Unlock_def IsSharedLocked_def set_emplace
        split: option.splits)

text \<open>Unfolding for the sample transactions.\<close>

lemmas sample_eval =
  sample_world_def sample_context_def Read_def LockShared_def GetTuple_def Unlock_def
  IsAborted_def IsSharedLocked_def IsExclusiveLocked_def emplace_def new_calls_def

subsection \<open>Order of the abort actions\<close>

text \<open>
  Claim C1. The claim asks that \<^verbatim>\<open>Abort\<close> run the recorded abort actions in reverse
  insertion order. The loop of \<^verbatim>\<open>Abort\<close> visits \<^verbatim>\<open>abort_action_\<close> from front to
  back: for actions \<open>as\<close> appended in this order to an empty queue, the thunks run
  are those of \<open>as\<close>, first appended first, and the table heap afterwards is the one
  obtained by applying their effects in that order.
\<close>

theorem Abort_runs_actions_in_insertion_order:
  assumes "heap w p = Some (fold AppendAbortAction as c0)" and "abort_action c0 = []"
  shows "action_calls (new_calls w (snd (Abort w p))) = map act_id as \<and>
         tuples (snd (Abort w p)) = fold act_run as (tuples w)"
  using assms(2) by (simp add: Abort_eq [OF assms(1)] abort_action_fold_Append)

text \<open>
  A transaction inserted row 3 and then deleted it; before it, row 3 did not
  exist. \<^verbatim>\<open>Abort\<close> runs the undo of the insert first and the undo of the delete
  second, and leaves row 3 in the table heap.
\<close>

theorem Abort_runs_actions_in_insertion_order_witness:
  "action_calls (new_calls
      (sample_world (fold AppendAbortAction [undo_insert, undo_delete] (sample_context REPEATABLE_READ GROWING [] [3])))
      (snd (Abort (sample_world (fold AppendAbortAction [undo_insert, undo_delete]
                      (sample_context REPEATABLE_READ GROWING [] [3]))) 0))) = [1, 2] \<and>
   tuples (sample_world (fold AppendAbortAction [undo_insert, undo_delete]
                      (sample_context REPEATABLE_READ GROWING [] [3]))) 3 = None \<and>
   tuples (snd (Abort (sample_world (fold AppendAbortAction [undo_insert, undo_delete]
                      (sample_context REPEATABLE_READ GROWING [] [3]))) 0)) 3 = Some ''gamma''"
  using Abort_runs_actions_in_insertion_order [of
      "sample_world (fold AppendAbortAction [undo_insert, undo_delete] (sample_context REPEATABLE_READ GROWING [] [3]))"
      0 "[undo_insert, undo_delete]" "sample_context REPEATABLE_READ GROWING [] [3]"]
  by (simp add: sample_world_def sample_context_def undo_insert_def undo_delete_def AppendAbortAction_def)

subsection \<open>The entry check of the data operations\<close>

text \<open>
  Claim C2, amended. Every data operation (\<^verbatim>\<open>Read\<close>, \<^verbatim>\<open>Insert\<close>, \<^verbatim>\<open>Update\<close>,
  \<^verbatim>\<open>Delete\<close>) on a context whose state is \<open>ABORTED\<close> at entry fails its entry
  assertion and leaves everything as it was: no lock call, no storage call. On a
  context in any other state, \<open>COMMITTED\<close> included, the assertion passes:
  \<^verbatim>\<open>Insert\<close>, \<^verbatim>\<open>Update\<close> and \<^verbatim>\<open>Delete\<close> return normally and \<^verbatim>\<open>Read\<close> goes on
  to its lock and fetch steps: its first call is the request of the shared lock
  when the isolation level and the held locks ask for one, and the fetch of the
  tuple otherwise.
\<close>

theorem data_operations_entry_assertion:
  assumes "heap w p = Some c"
  shows "(state c = ABORTED \<longrightarrow>
            Read w p rid = (Inl AssertionFailed, w) \<and>
            Insert w p t = (Inl AssertionFailed, w) \<and>
            Update w p t rid = (Inl AssertionFailed, w) \<and>
            Delete w p rid = (Inl AssertionFailed, w)) \<and>
         (state c \<noteq> ABORTED \<longrightarrow>
            fst (Read w p rid) \<noteq> Inl AssertionFailed \<and>
            (\<exists>es. new_calls w (snd (Read w p rid)) =
                    (if isolation_level c \<noteq> READ_UNCOMMITTED \<and>
                        \<not> IsSharedLocked c rid \<and> \<not> IsExclusiveLocked c rid
                     then EvLockShared p rid else EvGetTuple rid) # es) \<and>
            Insert w p t = (Inr None, w) \<and>
            Update w p t rid = (Inr (), w) \<and>
            Delete w p rid = (Inr (), w))"
proof -
  have a: "state c = ABORTED \<Longrightarrow> Read w p rid = (Inl AssertionFailed, w)"
    using assms by (simp add: Read_def IsAborted_def)
  have b: "state c \<noteq> ABORTED \<Longrightarrow> fst (Read w p rid) \<noteq> Inl AssertionFailed"
    by (simp add: Read_result [OF assms] IsAborted_def split: option.splits)
  have d: "state c \<noteq> ABORTED \<Longrightarrow>
      \<exists>es. new_calls w (snd (Read w p rid)) =
             (if isolation_level c \<noteq> READ_UNCOMMITTED \<and>
                 \<not> IsSharedLocked c rid \<and> \<not> IsExclusiveLocked c rid
              then EvLockShared p rid else EvGetTuple rid) # es"
    by (simp add: Read_calls [OF assms] IsAborted_def)
  show ?thesis
    using assms a b d by (simp add: Insert_def Update_def Delete_def IsAborted_def)
qed

text \<open>An \<open>ABORTED\<close> and a \<open>COMMITTED\<close> context.\<close>

theorem data_operations_entry_assertion_witness:
  "Read (sample_world (sample_context READ_COMMITTED ABORTED [] [])) 0 1 =
     (Inl AssertionFailed, sample_world (sample_context READ_COMMITTED ABORTED [] [])) \<and>
   Insert (sample_world (sample_context READ_COMMITTED ABORTED [] [])) 0 ''delta'' =
     (Inl AssertionFailed, sample_world (sample_context READ_COMMITTED ABORTED [] [])) \<and>
   Delete (sample_world (sample_context READ_COMMITTED COMMITTED [] [])) 0 1 =
     (Inr (), sample_world (sample_context READ_COMMITTED COMMITTED [] [])) \<and>
   (\<exists>es. new_calls (sample_world (sample_context READ_COMMITTED COMMITTED [] []))
            (snd (Read (sample_world (sample_context READ_COMMITTED COMMITTED [] [])) 0 1)) =
          EvLockShared 0 1 # es)"
  using data_operations_entry_assertion [of
      "sample_world (sample_context READ_COMMITTED ABORTED [] [])" 0
      "sample_context READ_COMMITTED ABORTED [] []" 1 "''delta''"]
    data_operations_entry_assertion [of
      "sample_world (sample_context READ_COMMITTED COMMITTED [] [])" 0
      "sample_context READ_COMMITTED COMMITTED [] []" 1 "''delta''"]
  by (simp add: sample_world_def sample_context_def IsSharedLocked_def IsExclusiveLocked_def)

text \<open>
  Against claim C2 as stated: \<^verbatim>\<open>Read\<close> on a \<open>COMMITTED\<close> context under
  \<open>REPEATABLE_READ\<close> requests a shared lock, fetches the tuple and returns it.
\<close>

theorem Read_on_COMMITTED_counterexample:
  "fst (Read (sample_world (sample_context REPEATABLE_READ COMMITTED [] [])) 0 1) =
     Inr (EC_OK, Some ''alpha'') \<and>
   new_calls (sample_world (sample_context REPEATABLE_READ COMMITTED [] []))
     (snd (Read (sample_world (sample_context REPEATABLE_READ COMMITTED [] [])) 0 1)) =
     [EvLockShared 0 1, EvGetTuple 1]"
  by (simp add: sample_eval)

subsection \<open>Repeated abort\<close>

text \<open>
  Claim C3, amended. \<^verbatim>\<open>Abort\<close> does not look at the state of the context. On
  every live context, already \<open>ABORTED\<close> or not, it returns after setting the
  state to \<open>ABORTED\<close> as its first call, running every abort action, unlocking
  every held RID once (in an order the hashed set decides), removing the context
  from the transaction map and destroying it. The context no longer exists
  afterwards, so a second \<^verbatim>\<open>Abort\<close> on it is a use of a destroyed object and not
  a call that returns without effect.
\<close>

theorem Abort_has_no_state_guard:
  assumes "heap w p = Some c"
  shows "fst (Abort w p) = Inr () \<and>
         take 1 (new_calls w (snd (Abort w p))) = [EvSetAborted p] \<and>
         action_calls (new_calls w (snd (Abort w p))) = map act_id (abort_action c) \<and>
         distinct (unlock_calls (new_calls w (snd (Abort w p)))) \<and>
         set (unlock_calls (new_calls w (snd (Abort w p)))) =
           Pair p ` (set (shared_lock_set c) \<union> set (exclusive_lock_set c)) \<and>
         EvRemoveTransactionContext (txn_id c) \<in> set (new_calls w (snd (Abort w p))) \<and>
         EvDelete p \<in> set (new_calls w (snd (Abort w p))) \<and>
         heap (snd (Abort w p)) p = None \<and>
         Abort (snd (Abort w p)) p = (Inl UseAfterFree, snd (Abort w p))"
proof -
  have h: "heap (snd (Abort w p)) p = None"
    by (simp add: Abort_eq [OF assms])
  have again: "Abort (snd (Abort w p)) p = (Inl UseAfterFree, snd (Abort w p))"
    using h by (simp add: Abort_def)
  have u: "unlock_calls (new_calls w (snd (Abort w p))) = map (Pair p) (lock_set_of (iteration_key w) c)"
    by (simp add: Abort_eq [OF assms])
  have d: "distinct (unlock_calls (new_calls w (snd (Abort w p))))"
    unfolding u by (simp add: distinct_map distinct_lock_set_of inj_on_def)
  have s: "set (unlock_calls (new_calls w (snd (Abort w p)))) =
           Pair p ` (set (shared_lock_set c) \<union> set (exclusive_lock_set c))"
    unfolding u by (simp add: set_lock_set_of)
  have rest: "fst (Abort w p) = Inr () \<and>
         take 1 (new_calls w (snd (Abort w p))) = [EvSetAborted p] \<and>
         action_calls (new_calls w (snd (Abort w p))) = map act_id (abort_action c) \<and>
         EvRemoveTransactionContext (txn_id c) \<in> set (new_calls w (snd (Abort w p))) \<and>
         EvDelete p \<in> set (new_calls w (snd (Abort w p)))"
    by (simp add: Abort_eq [OF assms])
  show ?thesis
    using rest d s h again by blast
qed

text \<open>
  A context the lock manager has already set to \<open>ABORTED\<close>: \<^verbatim>\<open>Abort\<close> runs its
  abort action and releases its locks all the same.
\<close>

theorem Abort_has_no_state_guard_witness:
  "take 1 (new_calls
      (sample_world ((sample_context REPEATABLE_READ ABORTED [1] [3])\<lparr>abort_action := [undo_insert]\<rparr>))
      (snd (Abort (sample_world ((sample_context REPEATABLE_READ ABORTED [1] [3])\<lparr>abort_action := [undo_insert]\<rparr>)) 0)))
     = [EvSetAborted 0] \<and>
   action_calls (new_calls
      (sample_world ((sample_context REPEATABLE_READ ABORTED [1] [3])\<lparr>abort_action := [undo_insert]\<rparr>))
      (snd (Abort (sample_world ((sample_context REPEATABLE_READ ABORTED [1] [3])\<lparr>abort_action := [undo_insert]\<rparr>)) 0)))
     = [1] \<and>
   set (unlock_calls (new_calls
      (sample_world ((sample_context REPEATABLE_READ ABORTED [1] [3])\<lparr>abort_action := [undo_insert]\<rparr>))
      (snd (Abort (sample_world ((sample_context REPEATABLE_READ ABORTED [1] [3])\<lparr>abort_action := [undo_insert]\<rparr>)) 0))))
     = {(0, 1), (0, 3)} \<and>
   fst (Abort (snd (Abort (sample_world ((sample_context REPEATABLE_READ ABORTED [1] [3])\<lparr>abort_action := [undo_insert]\<rparr>)) 0)) 0)
     = Inl UseAfterFree"
  using Abort_has_no_state_guard [of
      "sample_world ((sample_context REPEATABLE_READ ABORTED [1] [3])\<lparr>abort_action := [undo_insert]\<rparr>)" 0
      "(sample_context REPEATABLE_READ ABORTED [1] [3])\<lparr>abort_action := [undo_insert]\<rparr>"]
  by (simp add: sample_world_def sample_context_def undo_insert_def insert_commute)

text \<open>
  Against claim C3 as stated: the first \<^verbatim>\<open>Abort\<close> returns and destroys the
  context; the second call on the same context does not return as a no-op.
\<close>

theorem second_Abort_counterexample:
  "fst (Abort (sample_world (sample_context REPEATABLE_READ GROWING [] [])) 0) = Inr () \<and>
   heap (snd (Abort (sample_world (sample_context REPEATABLE_READ GROWING [] [])) 0)) 0 = None \<and>
   fst (Abort (snd (Abort (sample_world (sample_context REPEATABLE_READ GROWING [] [])) 0)) 0) =
     Inl UseAfterFree"
  by (simp add: Abort_def SetAborted_def ReleaseAllLocks_def RemoveTransactionContext_def
        delete_context_def lock_set_of_def iterate_def sample_world_def sample_context_def)

subsection \<open>Insert\<close>

text \<open>
  Claim C4, amended. \<^verbatim>\<open>Insert\<close> on a live context that is not aborted returns
  normally and changes nothing: it makes no call to the table heap, acquires no
  lock and appends no abort action, and it leaves the out parameter unwritten.
\<close>

theorem Insert_does_nothing:
  assumes "heap w p = Some c" and "\<not> IsAborted c"
  shows "Insert w p t = (Inr None, w)"
  using assms by (simp add: Insert_def)

text \<open>A fresh \<open>REPEATABLE_READ\<close> transaction.\<close>

theorem Insert_does_nothing_witness:
  "Insert (sample_world (sample_context REPEATABLE_READ GROWING [] [])) 0 ''delta'' =
     (Inr None, sample_world (sample_context REPEATABLE_READ GROWING [] []))"
  using Insert_does_nothing [of
      "sample_world (sample_context REPEATABLE_READ GROWING [] [])" 0
      "sample_context REPEATABLE_READ GROWING [] []" "''delta''"]
  by (simp add: sample_world_def sample_context_def IsAborted_def)

text \<open>
  Against claim C4 as stated: after \<^verbatim>\<open>Insert\<close> on a live context no call has been
  made, the context is as before (no exclusive lock, no abort action) and the
  table heap is as before.
\<close>

theorem Insert_counterexample:
  "fst (Insert (sample_world (sample_context REPEATABLE_READ GROWING [] [])) 0 ''delta'') = Inr None \<and>
   new_calls (sample_world (sample_context REPEATABLE_READ GROWING [] []))
     (snd (Insert (sample_world (sample_context REPEATABLE_READ GROWING [] [])) 0 ''delta'')) = [] \<and>
   heap (snd (Insert (sample_world (sample_context REPEATABLE_READ GROWING [] [])) 0 ''delta'')) 0 =
     Some (sample_context REPEATABLE_READ GROWING [] []) \<and>
   tuples (snd (Insert (sample_world (sample_context REPEATABLE_READ GROWING [] [])) 0 ''delta'')) =
     tuples (sample_world (sample_context REPEATABLE_READ GROWING [] []))"
  by (simp add: Insert_def sample_world_def sample_context_def IsAborted_def new_calls_def)

subsection \<open>Release of shared locks by Read\<close>

text \<open>
  Claim C5. Under \<open>READ_COMMITTED\<close>, when \<^verbatim>\<open>Read\<close> returns and a shared lock is
  held on the RID after the fetch (it was held at entry, or this call requested
  it), \<^verbatim>\<open>Read\<close> makes exactly one unlock call, for this RID, as its last call,
  and the context no longer holds the RID in shared mode. Under
  \<open>REPEATABLE_READ\<close> and \<open>SERIALIZABLE\<close>, \<^verbatim>\<open>Read\<close> makes no unlock call: every
  shared lock held at entry is still held, and the exclusive lock set is
  unchanged.
\<close>

theorem Read_shared_lock_release:
  assumes "heap w p = Some c"
  shows "(isolation_level c = READ_COMMITTED \<and> (\<exists>r. fst (Read w p rid) = Inr r) \<and>
            (IsSharedLocked c rid \<or> (p, rid) \<in> set (lock_requests (new_calls w (snd (Read w p rid))))) \<longrightarrow>
            unlock_calls (new_calls w (snd (Read w p rid))) = [(p, rid)] \<and>
            last (new_calls w (snd (Read w p rid))) = EvUnlock p rid \<and>
            (\<exists>c'. heap (snd (Read w p rid)) p = Some c' \<and> \<not> IsSharedLocked c' rid)) \<and>
         (isolation_level c = REPEATABLE_READ \<or> isolation_level c = SERIALIZABLE \<longrightarrow>
            unlock_calls (new_calls w (snd (Read w p rid))) = [] \<and>
            (\<exists>c'. heap (snd (Read w p rid)) p = Some c' \<and>
                  set (shared_lock_set c) \<subseteq> set (shared_lock_set c') \<and>
                  exclusive_lock_set c' = exclusive_lock_set c))"
proof (intro conjI impI)
  assume a: "isolation_level c = READ_COMMITTED \<and> (\<exists>r. fst (Read w p rid) = Inr r) \<and>
     (IsSharedLocked c rid \<or> (p, rid) \<in> set (lock_requests (new_calls w (snd (Read w p rid)))))"
  then have na: "\<not> IsAborted c"
    by (auto simp: Read_result [OF assms])
  from a na
  have nv: "\<not> (\<not> IsSharedLocked c rid \<and> \<not> IsExclusiveLocked c rid \<and> victim w p rid)"
    by (auto simp: Read_result [OF assms] split: if_splits)
  from a na nv
  have held: "IsSharedLocked c rid \<or> (\<not> IsExclusiveLocked c rid \<and> \<not> victim w p rid)"
    by (auto simp: Read_calls [OF assms] split: if_splits)
  from a na held show "unlock_calls (new_calls w (snd (Read w p rid))) = [(p, rid)]"
    by (auto simp: Read_calls [OF assms])
  from a na held show "last (new_calls w (snd (Read w p rid))) = EvUnlock p rid"
    by (auto simp: Read_calls [OF assms])
  from a na held show "\<exists>c'. heap (snd (Read w p rid)) p = Some c' \<and> \<not> IsSharedLocked c' rid"
    by (auto simp: Read_heap [OF assms] IsSharedLocked_def)
next
  assume b: "isolation_level c = REPEATABLE_READ \<or> isolation_level c = SERIALIZABLE"
  then show "unlock_calls (new_calls w (snd (Read w p rid))) = []"
    by (auto simp: Read_calls [OF assms])
  from b show "\<exists>c'. heap (snd (Read w p rid)) p = Some c' \<and>
                  set (shared_lock_set c) \<subseteq> set (shared_lock_set c') \<and>
                  exclusive_lock_set c' = exclusive_lock_set c"
    by (auto simp: Read_heap [OF assms] set_emplace)
qed

text \<open>A \<open>READ_COMMITTED\<close> read that acquires its lock, and a \<open>REPEATABLE_READ\<close> read.\<close>

theorem Read_shared_lock_release_witness:
  "unlock_calls (new_calls (sample_world (sample_context READ_COMMITTED GROWING [] []))
      (snd (Read (sample_world (sample_context READ_COMMITTED GROWING [] [])) 0 1))) = [(0, 1)] \<and>
   last (new_calls (sample_world (sample_context READ_COMMITTED GROWING [] []))
      (snd (Read (sample_world (sample_context READ_COMMITTED GROWING [] [])) 0 1))) = EvUnlock 0 1 \<and>
   unlock_calls (new_calls (sample_world (sample_context REPEATABLE_READ GROWING [2] []))
      (snd (Read (sample_world (sample_context REPEATABLE_READ GROWING [2] [])) 0 1))) = []"
  using Read_shared_lock_release [of
      "sample_world (sample_context READ_COMMITTED GROWING [] [])" 0
      "sample_context READ_COMMITTED GROWING [] []" 1]
    Read_shared_lock_release [of
      "sample_world (sample_context REPEATABLE_READ GROWING [2] [])" 0
      "sample_context REPEATABLE_READ GROWING [2] []" 1]
  by (simp add: sample_eval)

subsection \<open>Acquisition of shared locks by Read\<close>

text \<open>
  Claim C6. Under \<open>READ_UNCOMMITTED\<close>, \<^verbatim>\<open>Read\<close> requests no shared lock. Under every
  other isolation level, \<^verbatim>\<open>Read\<close> on a context that passes the entry assertion
  requests a shared lock, once and on the RID it reads, exactly when the context
  holds neither a shared nor an exclusive lock on that RID, and requests none
  otherwise.
\<close>

theorem Read_shared_lock_acquisition:
  assumes "heap w p = Some c"
  shows "(isolation_level c = READ_UNCOMMITTED \<longrightarrow>
            lock_requests (new_calls w (snd (Read w p rid))) = []) \<and>
         (isolation_level c \<noteq> READ_UNCOMMITTED \<and> \<not> IsAborted c \<longrightarrow>
            lock_requests (new_calls w (snd (Read w p rid))) =
              (if \<not> IsSharedLocked c rid \<and> \<not> IsExclusiveLocked c rid then [(p, rid)] else []))"
  by (simp add: Read_calls [OF assms])

text \<open>
  A \<open>READ_UNCOMMITTED\<close> read, and two \<open>SERIALIZABLE\<close> reads: of a RID not yet
  locked, and of a RID held in exclusive mode.
\<close>

theorem Read_shared_lock_acquisition_witness:
  "lock_requests (new_calls (sample_world (sample_context READ_UNCOMMITTED GROWING [] []))
      (snd (Read (sample_world (sample_context READ_UNCOMMITTED GROWING [] [])) 0 1))) = [] \<and>
   lock_requests (new_calls (sample_world (sample_context SERIALIZABLE GROWING [2] [5]))
      (snd (Read (sample_world (sample_context SERIALIZABLE GROWING [2] [5])) 0 1))) = [(0, 1)] \<and>
   lock_requests (new_calls (sample_world (sample_context SERIALIZABLE GROWING [2] [5]))
      (snd (Read (sample_world (sample_context SERIALIZABLE GROWING [2] [5])) 0 5))) = []"
  using Read_shared_lock_acquisition [of
      "sample_world (sample_context READ_UNCOMMITTED GROWING [] [])" 0
      "sample_context READ_UNCOMMITTED GROWING [] []" 1]
    Read_shared_lock_acquisition [of
      "sample_world (sample_context SERIALIZABLE GROWING [2] [5])" 0
      "sample_context SERIALIZABLE GROWING [2] [5]" 1]
    Read_shared_lock_acquisition [of
      "sample_world (sample_context SERIALIZABLE GROWING [2] [5])" 0
      "sample_context SERIALIZABLE GROWING [2] [5]" 5]
  by (simp add: sample_world_def sample_context_def IsAborted_def IsSharedLocked_def
        IsExclusiveLocked_def)

subsection \<open>Order of finalization\<close>

text \<open>
  Claim C7. For both \<^verbatim>\<open>Commit\<close> and \<^verbatim>\<open>Abort\<close> on a live context, the calls made
  are, in this order: the state transition (to \<open>COMMITTED\<close>, respectively \<open>ABORTED\<close>),
  then every registered action of the matching queue from front to back, then the
  unlock calls (one for every RID of the two lock sets, in an order the hashed set
  decides), then the removal from the transaction map, and the destruction of
  the context last. Registration appends at the back of the queue, so front to
  back is insertion order.
\<close>

theorem Commit_Abort_call_order:
  assumes "heap w p = Some c"
  shows "fst (Commit w p) = Inr () \<and>
         (\<exists>us. new_calls w (snd (Commit w p)) =
                  [EvSetCommitted p] @ map (\<lambda>a. EvAction (act_id a)) (commit_action c) @
                  map (EvUnlock p) us @ [EvRemoveTransactionContext (txn_id c), EvDelete p] \<and>
               distinct us \<and>
               set us = set (shared_lock_set c) \<union> set (exclusive_lock_set c)) \<and>
         commit_action (AppendCommitAction a c) = commit_action c @ [a] \<and>
         fst (Abort w p) = Inr () \<and>
         (\<exists>us. new_calls w (snd (Abort w p)) =
                  [EvSetAborted p] @ map (\<lambda>a. EvAction (act_id a)) (abort_action c) @
                  map (EvUnlock p) us @ [EvRemoveTransactionContext (txn_id c), EvDelete p] \<and>
               distinct us \<and>
               set us = set (shared_lock_set c) \<union> set (exclusive_lock_set c))"
proof -
  let ?us = "lock_set_of (iteration_key w) c"
  have us: "distinct ?us \<and> set ?us = set (shared_lock_set c) \<union> set (exclusive_lock_set c)"
    by (simp add: distinct_lock_set_of set_lock_set_of)
  have co: "new_calls w (snd (Commit w p)) =
              [EvSetCommitted p] @ map (\<lambda>a. EvAction (act_id a)) (commit_action c) @
              map (EvUnlock p) ?us @ [EvRemoveTransactionContext (txn_id c), EvDelete p]"
    by (simp add: Commit_eq [OF assms])
  have ab: "new_calls w (snd (Abort w p)) =
              [EvSetAborted p] @ map (\<lambda>a. EvAction (act_id a)) (abort_action c) @
              map (EvUnlock p) ?us @ [EvRemoveTransactionContext (txn_id c), EvDelete p]"
    by (simp add: Abort_eq [OF assms])
  have r: "fst (Commit w p) = Inr () \<and> fst (Abort w p) = Inr () \<and>
           commit_action (AppendCommitAction a c) = commit_action c @ [a]"
    by (simp add: Commit_eq [OF assms] Abort_eq [OF assms] AppendCommitAction_def)
  show ?thesis
    using us co ab r by blast
qed

text \<open>A transaction with two registered actions, holding the RIDs 1, 2 and 5.\<close>

theorem Commit_Abort_call_order_witness:
  "fst (Commit (sample_world ((sample_context READ_COMMITTED GROWING [1, 2] [2, 5])
            \<lparr>commit_action := [undo_insert, undo_delete]\<rparr>)) 0) = Inr () \<and>
   (\<exists>us. new_calls (sample_world ((sample_context READ_COMMITTED GROWING [1, 2] [2, 5])
                \<lparr>commit_action := [undo_insert, undo_delete]\<rparr>))
            (snd (Commit (sample_world ((sample_context READ_COMMITTED GROWING [1, 2] [2, 5])
                \<lparr>commit_action := [undo_insert, undo_delete]\<rparr>)) 0)) =
          [EvSetCommitted 0, EvAction 1, EvAction 2] @ map (EvUnlock 0) us @
          [EvRemoveTransactionContext 7, EvDelete 0] \<and>
        distinct us \<and> set us = {1, 2, 5}) \<and>
   (\<exists>us. new_calls (sample_world ((sample_context READ_COMMITTED GROWING [1, 2] [2, 5])
                \<lparr>abort_action := [undo_insert, undo_delete]\<rparr>))
            (snd (Abort (sample_world ((sample_context READ_COMMITTED GROWING [1, 2] [2, 5])
                \<lparr>abort_action := [undo_insert, undo_delete]\<rparr>)) 0)) =
          [EvSetAborted 0, EvAction 1, EvAction 2] @ map (EvUnlock 0) us @
          [EvRemoveTransactionContext 7, EvDelete 0] \<and>
        distinct us \<and> set us = {1, 2, 5})"
  using Commit_Abort_call_order [of
      "sample_world ((sample_context READ_COMMITTED GROWING [1, 2] [2, 5])
            \<lparr>commit_action := [undo_insert, undo_delete]\<rparr>)" 0
      "(sample_context READ_COMMITTED GROWING [1, 2] [2, 5])
            \<lparr>commit_action := [undo_insert, undo_delete]\<rparr>" undo_insert]
    Commit_Abort_call_order [of
      "sample_world ((sample_context READ_COMMITTED GROWING [1, 2] [2, 5])
            \<lparr>abort_action := [undo_insert, undo_delete]\<rparr>)" 0
      "(sample_context READ_COMMITTED GROWING [1, 2] [2, 5])
            \<lparr>abort_action := [undo_insert, undo_delete]\<rparr>" undo_insert]
  by (auto simp: sample_world_def sample_context_def undo_insert_def undo_delete_def)

subsection \<open>Draining of the locks\<close>

text \<open>
  Claim C8. \<^verbatim>\<open>Commit\<close> and \<^verbatim>\<open>Abort\<close> on a live context make exactly one unlock
  call for every RID that is in the shared or in the exclusive lock set of the
  context, also when a RID is in both, and no other unlock call.
  \<^verbatim>\<open>ReleaseAllLocks\<close> leaves both lock sets of the context empty, and after
  \<^verbatim>\<open>Commit\<close> or \<^verbatim>\<open>Abort\<close> the context is gone.
\<close>

theorem finalization_drains_locks:
  assumes "heap w p = Some c"
  shows "(\<forall>q rid. count_list (unlock_calls (new_calls w (snd (Commit w p)))) (q, rid) =
            (if q = p \<and> rid \<in> set (shared_lock_set c) \<union> set (exclusive_lock_set c) then 1 else 0)) \<and>
         (\<forall>q rid. count_list (unlock_calls (new_calls w (snd (Abort w p)))) (q, rid) =
            (if q = p \<and> rid \<in> set (shared_lock_set c) \<union> set (exclusive_lock_set c) then 1 else 0)) \<and>
         (\<exists>c'. heap (snd (ReleaseAllLocks w p)) p = Some c' \<and>
               shared_lock_set c' = [] \<and> exclusive_lock_set c' = []) \<and>
         heap (snd (Commit w p)) p = None \<and>
         heap (snd (Abort w p)) p = None"
proof -
  have d: "distinct (map (Pair p) (lock_set_of (iteration_key w) c))"
    by (simp add: distinct_map distinct_lock_set_of inj_on_def)
  have m: "(q, rid) \<in> set (map (Pair p) (lock_set_of (iteration_key w) c)) \<longleftrightarrow>
           q = p \<and> rid \<in> set (shared_lock_set c) \<union> set (exclusive_lock_set c)" for q rid
    by (auto simp: set_lock_set_of)
  have cnt: "count_list (map (Pair p) (lock_set_of (iteration_key w) c)) (q, rid) =
           (if q = p \<and> rid \<in> set (shared_lock_set c) \<union> set (exclusive_lock_set c) then 1 else 0)" for q rid
    using count_list_distinct [OF d, of "(q, rid)"] m [of q rid] by simp
  have uc: "unlock_calls (new_calls w (snd (Commit w p))) = map (Pair p) (lock_set_of (iteration_key w) c)"
    by (simp add: Commit_eq [OF assms])
  have ua: "unlock_calls (new_calls w (snd (Abort w p))) = map (Pair p) (lock_set_of (iteration_key w) c)"
    by (simp add: Abort_eq [OF assms])
  have r: "\<exists>c'. heap (snd (ReleaseAllLocks w p)) p = Some c' \<and>
               shared_lock_set c' = [] \<and> exclusive_lock_set c' = []"
    by (simp add: ReleaseAllLocks_eq [OF assms])
  have hc: "heap (snd (Commit w p)) p = None"
    by (simp add: Commit_eq [OF assms])
  have ha: "heap (snd (Abort w p)) p = None"
    by (simp add: Abort_eq [OF assms])
  show ?thesis
    unfolding uc ua using cnt r hc ha by blast
qed

text \<open>A transaction holding RID 2 in both modes: it is unlocked once.\<close>

theorem finalization_drains_locks_witness:
  "count_list (unlock_calls (new_calls (sample_world (sample_context REPEATABLE_READ GROWING [1, 2] [2, 5]))
      (snd (Commit (sample_world (sample_context REPEATABLE_READ GROWING [1, 2] [2, 5])) 0)))) (0, 2) = 1 \<and>
   count_list (unlock_calls (new_calls (sample_world (sample_context REPEATABLE_READ GROWING [1, 2] [2, 5]))
      (snd (Abort (sample_world (sample_context REPEATABLE_READ GROWING [1, 2] [2, 5])) 0)))) (0, 9) = 0 \<and>
   heap (snd (Commit (sample_world (sample_context REPEATABLE_READ GROWING [1, 2] [2, 5])) 0)) 0 = None"
  using finalization_drains_locks [of
      "sample_world (sample_context REPEATABLE_READ GROWING [1, 2] [2, 5])" 0
      "sample_context REPEATABLE_READ GROWING [1, 2] [2, 5]"]
  by (simp add: sample_world_def sample_context_def)

subsection \<open>A failed fetch\<close>

text \<open>
  Claim C9. When \<^verbatim>\<open>Read\<close> calls \<^verbatim>\<open>GetTuple\<close> and the table heap has no tuple at the
  RID, \<^verbatim>\<open>Read\<close> returns \<open>SKIP\<close>. The context stays alive, in the state it had
  and not aborted; the transaction map and the table heap are unchanged; and a
  further \<^verbatim>\<open>Read\<close> on the context passes its entry assertion.
\<close>

theorem Read_GetTuple_failure_returns_SKIP:
  assumes "heap w p = Some c"
    and "rid \<in> set (storage_calls (new_calls w (snd (Read w p rid))))"
    and "tuples w rid = None"
  shows "fst (Read w p rid) = Inr (SKIP, None) \<and>
         (\<exists>c'. heap (snd (Read w p rid)) p = Some c' \<and> state c' = state c \<and> \<not> IsAborted c') \<and>
         txn_map (snd (Read w p rid)) = txn_map w \<and>
         tuples (snd (Read w p rid)) = tuples w \<and>
         (\<forall>rid'. fst (Read (snd (Read w p rid)) p rid') \<noteq> Inl AssertionFailed \<and>
                 fst (Read (snd (Read w p rid)) p rid') \<noteq> Inl UseAfterFree)"
proof -
  from assms(2) have na: "\<not> IsAborted c"
    by (auto simp: Read_calls [OF assms(1)] split: if_splits)
  from assms(2) na
  have nv: "\<not> (isolation_level c \<noteq> READ_UNCOMMITTED \<and> \<not> IsSharedLocked c rid \<and>
               \<not> IsExclusiveLocked c rid \<and> victim w p rid)"
    by (auto simp: Read_calls [OF assms(1)] split: if_splits)
  have res: "fst (Read w p rid) = Inr (SKIP, None)"
    using na nv assms(3) by (auto simp: Read_result [OF assms(1)])
  have "\<exists>c'. heap (snd (Read w p rid)) p = Some c' \<and> state c' = state c"
    using na nv by (auto simp: Read_heap [OF assms(1)])
  then obtain c' where c': "heap (snd (Read w p rid)) p = Some c'" and st: "state c' = state c"
    by blast
  have na': "\<not> IsAborted c'"
    using na st by (simp add: IsAborted_def)
  have tm: "txn_map (snd (Read w p rid)) = txn_map w"
    using assms(1) by (simp add: Read_def LockShared_def GetTuple_def Unlock_def split: option.splits)
  have tu: "tuples (snd (Read w p rid)) = tuples w"
    using assms(1) by (simp add: Read_def LockShared_def GetTuple_def Unlock_def split: option.splits)
  have again: "fst (Read (snd (Read w p rid)) p rid') \<noteq> Inl AssertionFailed \<and>
               fst (Read (snd (Read w p rid)) p rid') \<noteq> Inl UseAfterFree" for rid'
    using na' by (auto simp: Read_result [OF c'] split: option.splits)
  show ?thesis
    using res c' st na' tm tu again by blast
qed

text \<open>A read of the missing row 9, followed by a read of row 1.\<close>

theorem Read_GetTuple_failure_returns_SKIP_witness:
  "fst (Read (sample_world (sample_context REPEATABLE_READ GROWING [] [])) 0 9) = Inr (SKIP, None) \<and>
   fst (Read (snd (Read (sample_world (sample_context REPEATABLE_READ GROWING [] [])) 0 9)) 0 1)
     = Inr (EC_OK, Some ''alpha'')"
  using Read_GetTuple_failure_returns_SKIP [of
      "sample_world (sample_context REPEATABLE_READ GROWING [] [])" 0
      "sample_context REPEATABLE_READ GROWING [] []" 9]
  by (simp add: sample_eval)

subsection \<open>Read and exclusive locks\<close>

text \<open>
  Claim C10, amended. \<^verbatim>\<open>Read\<close> makes an unlock call only under \<open>READ_COMMITTED\<close>, only
  for the RID it reads, and only when the context holds that RID in shared mode
  after the fetch (held at entry, or requested by this call). Let the context
  not hold the RID in both modes at once (the lock sets of a context are
  disjoint). Then \<^verbatim>\<open>Read\<close> of that RID, at any isolation level, leaves the
  exclusive lock set of the context as it was; and when the context holds the
  RID in exclusive mode, \<^verbatim>\<open>Read\<close> makes no unlock call and no lock request.
\<close>

theorem Read_keeps_exclusive_locks:
  assumes "heap w p = Some c"
  shows "(unlock_calls (new_calls w (snd (Read w p rid))) \<noteq> [] \<longrightarrow>
            unlock_calls (new_calls w (snd (Read w p rid))) = [(p, rid)] \<and>
            isolation_level c = READ_COMMITTED \<and>
            (IsSharedLocked c rid \<or> (p, rid) \<in> set (lock_requests (new_calls w (snd (Read w p rid)))))) \<and>
         (\<not> (IsSharedLocked c rid \<and> IsExclusiveLocked c rid) \<longrightarrow>
            (\<exists>c'. heap (snd (Read w p rid)) p = Some c' \<and>
                  exclusive_lock_set c' = exclusive_lock_set c) \<and>
            (IsExclusiveLocked c rid \<longrightarrow>
               unlock_calls (new_calls w (snd (Read w p rid))) = [] \<and>
               lock_requests (new_calls w (snd (Read w p rid))) = []))"
proof (intro conjI impI)
  assume u: "unlock_calls (new_calls w (snd (Read w p rid))) \<noteq> []"
  then show "unlock_calls (new_calls w (snd (Read w p rid))) = [(p, rid)]"
    by (auto simp: Read_calls [OF assms] split: if_splits)
  from u show "isolation_level c = READ_COMMITTED"
    by (auto simp: Read_calls [OF assms] split: if_splits)
  from u show "IsSharedLocked c rid \<or>
      (p, rid) \<in> set (lock_requests (new_calls w (snd (Read w p rid))))"
    by (auto simp: Read_calls [OF assms] split: if_splits)
next
  assume inv: "\<not> (IsSharedLocked c rid \<and> IsExclusiveLocked c rid)"
  then have "IsSharedLocked c rid \<Longrightarrow> rid \<notin> set (exclusive_lock_set c)"
    by (auto simp: IsExclusiveLocked_def)
  then have r: "IsSharedLocked c rid \<Longrightarrow> removeAll rid (exclusive_lock_set c) = exclusive_lock_set c"
    by (simp add: removeAll_id)
  have r': "\<not> IsExclusiveLocked c rid \<Longrightarrow> removeAll rid (exclusive_lock_set c) = exclusive_lock_set c"
    by (simp add: IsExclusiveLocked_def removeAll_id)
  show "\<exists>c'. heap (snd (Read w p rid)) p = Some c' \<and> exclusive_lock_set c' = exclusive_lock_set c"
    using r r' by (simp add: Read_heap [OF assms])
  assume x: "IsExclusiveLocked c rid"
  with inv have ns: "\<not> IsSharedLocked c rid"
    by blast
  from x ns show "unlock_calls (new_calls w (snd (Read w p rid))) = []"
    by (simp add: Read_calls [OF assms])
  from x ns show "lock_requests (new_calls w (snd (Read w p rid))) = []"
    by (simp add: Read_calls [OF assms])
qed

text \<open>
  A \<open>READ_COMMITTED\<close> transaction holding RID 1 in exclusive and RID 2 in shared
  mode: its read of RID 1 makes the fetch its only call, its read of RID 2 unlocks
  RID 2.
\<close>

theorem Read_keeps_exclusive_locks_witness:
  "unlock_calls (new_calls (sample_world (sample_context READ_COMMITTED GROWING [2] [1]))
      (snd (Read (sample_world (sample_context READ_COMMITTED GROWING [2] [1])) 0 1))) = [] \<and>
   new_calls (sample_world (sample_context READ_COMMITTED GROWING [2] [1]))
      (snd (Read (sample_world (sample_context READ_COMMITTED GROWING [2] [1])) 0 1)) = [EvGetTuple 1] \<and>
   unlock_calls (new_calls (sample_world (sample_context READ_COMMITTED GROWING [2] [1]))
      (snd (Read (sample_world (sample_context READ_COMMITTED GROWING [2] [1])) 0 2))) = [(0, 2)] \<and>
   isolation_level (sample_context READ_COMMITTED GROWING [2] [1]) = READ_COMMITTED \<and>
   IsSharedLocked (sample_context READ_COMMITTED GROWING [2] [1]) 2"
  using Read_keeps_exclusive_locks [of
      "sample_world (sample_context READ_COMMITTED GROWING [2] [1])" 0
      "sample_context READ_COMMITTED GROWING [2] [1]" 1]
    Read_keeps_exclusive_locks [of
      "sample_world (sample_context READ_COMMITTED GROWING [2] [1])" 0
      "sample_context READ_COMMITTED GROWING [2] [1]" 2]
  by (simp add: sample_eval)

text \<open>
  Against claim C10 as stated: a \<open>READ_COMMITTED\<close> context that holds RID 1 in
  exclusive and in shared mode at once. \<^verbatim>\<open>Read\<close> of RID 1 finds the shared entry
  after the fetch and calls \<^verbatim>\<open>Unlock\<close>, which releases whichever mode is held:
  the context no longer holds RID 1 in exclusive mode.
\<close>

theorem Read_releases_exclusive_lock_counterexample:
  "IsExclusiveLocked (sample_context READ_COMMITTED GROWING [1] [1]) 1 \<and>
   unlock_calls (new_calls (sample_world (sample_context READ_COMMITTED GROWING [1] [1]))
      (snd (Read (sample_world (sample_context READ_COMMITTED GROWING [1] [1])) 0 1))) = [(0, 1)] \<and>
   heap (snd (Read (sample_world (sample_context READ_COMMITTED GROWING [1] [1])) 0 1)) 0 =
     Some (sample_context READ_COMMITTED GROWING [] [])"
  by (simp add: sample_eval)

end
